theory Spec2Isabelle
  imports Main "HOL-Library.Sublist"
begin

section \<open>Exceptions raised by mesonbuild/compilers/mixins/arm.py\<close>

text \<open>
  Every way in which the code of \<^verbatim>\<open>arm.py\<close> can leave a function other than by
  \<^verbatim>\<open>return\<close> is a value of this type: the explicit
  \<^verbatim>\<open>raise mesonlib.EnvironmentException(msg)\<close>, a failed dictionary subscript,
  a failed \<^verbatim>\<open>assert\<close>, and the concatenation of a string with \<^verbatim>\<open>None\<close>.
\<close>

datatype error =
    EnvironmentException string
  | KeyError string
  | AssertionError
  | TypeError

section \<open>The module-level flag tables\<close>

text \<open>
  A dictionary literal is an association list; \<^verbatim>\<open>d[k]\<close> raises
  \<^verbatim>\<open>KeyError\<close> on a key that is absent.
\<close>

definition dict_getitem :: "(string \<times> 'v) list \<Rightarrow> string \<Rightarrow> error + 'v" where
  "dict_getitem d k = (case map_of d k of None \<Rightarrow> Inl (KeyError k) | Some v \<Rightarrow> Inr v)"

definition arm_buildtype_args :: "(string \<times> string list) list" where
  "arm_buildtype_args =
     [(''plain'', []),
      (''debug'', [''-O0'', ''--debug'']),
      (''debugoptimized'', [''-O1'', ''--debug'']),
      (''release'', [''-O3'', ''-Otime'']),
      (''minsize'', [''-O3'', ''-Ospace'']),
      (''custom'', [])]"

definition arm_optimization_args :: "(string \<times> string list) list" where
  "arm_optimization_args =
     [(''0'', [''-O0'']),
      (''g'', [''-g'']),
      (''1'', [''-O1'']),
      (''2'', [''-O2'']),
      (''3'', [''-O3'']),
      (''s'', [])]"

definition armclang_buildtype_args :: "(string \<times> string list) list" where
  "armclang_buildtype_args =
     [(''plain'', []),
      (''debug'', [''-O0'', ''-g'']),
      (''debugoptimized'', [''-O1'', ''-g'']),
      (''release'', [''-Os'']),
      (''minsize'', [''-Oz'']),
      (''custom'', [])]"

definition armclang_optimization_args :: "(string \<times> string list) list" where
  "armclang_optimization_args =
     [(''0'', [''-O0'']),
      (''g'', [''-g'']),
      (''1'', [''-O1'']),
      (''2'', [''-O2'']),
      (''3'', [''-O3'']),
      (''s'', [''-Os''])]"

definition ArmCompiler_get_buildtype_args :: "string \<Rightarrow> error + string list" where
  "ArmCompiler_get_buildtype_args buildtype = dict_getitem arm_buildtype_args buildtype"

definition ArmCompiler_get_optimization_args :: "string \<Rightarrow> error + string list" where
  "ArmCompiler_get_optimization_args optimization_level =
     dict_getitem arm_optimization_args optimization_level"

definition ArmclangCompiler_get_buildtype_args :: "string \<Rightarrow> error + string list" where
  "ArmclangCompiler_get_buildtype_args buildtype = dict_getitem armclang_buildtype_args buildtype"

definition ArmclangCompiler_get_optimization_args :: "string \<Rightarrow> error + string list" where
  "ArmclangCompiler_get_optimization_args optimization_level =
     dict_getitem armclang_optimization_args optimization_level"

section \<open>Regular expressions as Python's \<^verbatim>\<open>re\<close> matches them\<close>

text \<open>
  \<^verbatim>\<open>ArmclangCompiler.__init__\<close> searches the linker's output with two patterns.
  The constructs they use are embedded as a datatype, and the backtracking matcher of
  \<^verbatim>\<open>re\<close> as the function \<open>ends\<close>: the end positions of all the ways in which a
  pattern matches the subject \<open>s\<close> from position \<open>p\<close>, in the order in which the
  matcher tries them (a greedy repeat tries one more iteration before it stops). The
  match that \<^verbatim>\<open>re.search\<close> reports starts at the leftmost position with any
  match and ends at the first of these positions.
\<close>

datatype regex =
    Eps
  | Sym "char \<Rightarrow> bool"
  | Seq regex regex
  | Alt regex regex
  | Rep nat "nat option" regex
  | NegLookbehind nat regex

text \<open>
  \<open>Rep lo hi a\<close> is the greedy repeat \<^verbatim>\<open>a{lo,hi}\<close>, with \<open>hi = None\<close> for no
  upper bound. \<open>f p\<close> are the ends of one iteration from \<open>p\<close> and \<open>n\<close> is the length of
  the subject. An iteration that consumes nothing is not repeated, as in \<^verbatim>\<open>re\<close>.
\<close>

function rep_ends :: "(nat \<Rightarrow> nat list) \<Rightarrow> nat \<Rightarrow> nat \<Rightarrow> nat option \<Rightarrow> nat \<Rightarrow> nat list" where
  "rep_ends f n lo hi p =
     (if hi = Some 0 then []
      else concat (map (\<lambda>e. if p < e \<and> e \<le> n
                              then rep_ends f n (lo - 1) (map_option (\<lambda>k. k - 1) hi) e
                              else [])
                       (f p)))
     @ (if lo = 0 then [p] else [])"
  by pat_completeness auto
termination
  by (relation "measure (\<lambda>(f, n, lo, hi, p). n - p)") auto

declare rep_ends.simps [simp del]

primrec ends :: "regex \<Rightarrow> string \<Rightarrow> nat \<Rightarrow> nat list" where
  "ends Eps s p = [p]"
| "ends (Sym P) s p = (if p < length s \<and> P (s ! p) then [Suc p] else [])"
| "ends (Seq a b) s p = concat (map (ends b s) (ends a s p))"
| "ends (Alt a b) s p = ends a s p @ ends b s p"
| "ends (Rep lo hi a) s p = rep_ends (ends a s) (length s) lo hi p"
| "ends (NegLookbehind w a) s p = (if w \<le> p \<and> p \<in> set (ends a s (p - w)) then [] else [p])"

text \<open>
  \<^verbatim>\<open>re.search(pattern, s)\<close>: the span of the first match, scanning the start
  positions from the left, or \<open>None\<close>. \<open>group0\<close> is \<^verbatim>\<open>m.group(0)\<close>.
\<close>

function search_from :: "regex \<Rightarrow> string \<Rightarrow> nat \<Rightarrow> (nat \<times> nat) option" where
  "search_from r s p =
     (if length s < p then None
      else case ends r s p of
             e # _ \<Rightarrow> Some (p, e)
           | [] \<Rightarrow> search_from r s (Suc p))"
  by pat_completeness auto
termination
  by (relation "measure (\<lambda>(r, s, p). Suc (length s) - p)") auto

declare search_from.simps [simp del]

definition re_search :: "regex \<Rightarrow> string \<Rightarrow> (nat \<times> nat) option" where
  "re_search r s = search_from r s 0"

definition group0 :: "string \<Rightarrow> nat \<times> nat \<Rightarrow> string" where
  "group0 s m = take (snd m - fst m) (drop (fst m) s)"

subsection \<open>The character classes and the two patterns of the source\<close>

definition is_digit :: "char \<Rightarrow> bool" where
  "is_digit c = (c \<in> set ''0123456789'')"

definition is_alnum :: "char \<Rightarrow> bool" where
  "is_alnum c =
     (c \<in> set ''abcdefghijklmnopqrstuvwxyz'' \<or> c \<in> set ''ABCDEFGHIJKLMNOPQRSTUVWXYZ''
      \<or> c \<in> set ''0123456789'')"

definition re_any :: regex where
  "re_any = Sym (\<lambda>c. c \<noteq> CHR 0x0A)"

definition re_char :: "char \<Rightarrow> regex" where
  "re_char c = Sym (\<lambda>x. x = c)"

definition re_digit :: regex where
  "re_digit = Sym is_digit"

fun re_string :: "string \<Rightarrow> regex" where
  "re_string [] = Eps"
| "re_string [c] = re_char c"
| "re_string (c # cs) = Seq (re_char c) (re_string cs)"

definition star :: "regex \<Rightarrow> regex" where
  "star a = Rep 0 None a"

definition plus_re :: "regex \<Rightarrow> regex" where
  "plus_re a = Rep 1 None a"

definition opt :: "regex \<Rightarrow> regex" where
  "opt a = Rep 0 (Some 1) a"

text \<open>The pattern \<^verbatim>\<open>'.*Component.*'\<close>.\<close>

definition component_regex :: regex where
  "component_regex = Seq (star re_any) (Seq (re_string ''Component'') (star re_any))"

text \<open>
  The pattern \<^verbatim>\<open>r'(?<!(\d|\.))(\d{1,2}(\.\d+)+(-[a-zA-Z0-9]+)?)'\<close>; capture groups
  do not change what is matched.
\<close>

definition version_regex :: regex where
  "version_regex =
     Seq (NegLookbehind 1 (Alt re_digit (re_char CHR ''.'')))
         (Seq (Rep 1 (Some 2) re_digit)
              (Seq (plus_re (Seq (re_char CHR ''.'') (plus_re re_digit)))
                   (opt (Seq (re_char CHR ''-'') (plus_re (Sym is_alnum))))))"

section \<open>The path functions of the standard library\<close>

text \<open>
  \<^verbatim>\<open>os.path\<close> is Python's \<^verbatim>\<open>posixpath\<close> (the build host is taken to be
  POSIX, as the paths of the spec are). \<open>str_split\<close> is \<^verbatim>\<open>s.split(sep)\<close> for a
  separator of one character and \<open>str_join\<close> is \<^verbatim>\<open>sep.join(xs)\<close>.
\<close>

fun str_split :: "char \<Rightarrow> string \<Rightarrow> string list" where
  "str_split sep [] = [[]]"
| "str_split sep (c # cs) =
     (if c = sep then [] # str_split sep cs
      else (case str_split sep cs of
              w # ws \<Rightarrow> (c # w) # ws
            | [] \<Rightarrow> [[c]]))"

fun str_join :: "string \<Rightarrow> string list \<Rightarrow> string" where
  "str_join sep [] = []"
| "str_join sep [x] = x"
| "str_join sep (x # xs) = x @ sep @ str_join sep xs"

text \<open>\<^verbatim>\<open>posixpath.join(a, b)\<close> with one component after the base.\<close>

definition os_path_join :: "string \<Rightarrow> string \<Rightarrow> string" where
  "os_path_join a b =
     (if take 1 b = ''/'' then b
      else if a = [] \<or> last a = CHR ''/'' then a @ b
      else a @ ''/'' @ b)"

text \<open>
  The loop of \<^verbatim>\<open>posixpath.normpath\<close> over the components of the path:
  \<^verbatim>\<open>
  for comp in comps:
      if comp in (empty, dot):
          continue
      if (comp != dotdot or (not initial_slashes and not new_comps) or
           (new_comps and new_comps[-1] == dotdot)):
          new_comps.append(comp)
      elif new_comps:
          new_comps.pop()
  \<close>
\<close>

fun normpath_loop :: "nat \<Rightarrow> string list \<Rightarrow> string list \<Rightarrow> string list" where
  "normpath_loop initial_slashes [] new_comps = new_comps"
| "normpath_loop initial_slashes (cmp # comps) new_comps =
     (if cmp = [] \<or> cmp = ''.'' then normpath_loop initial_slashes comps new_comps
      else if cmp \<noteq> ''..'' \<or> (initial_slashes = 0 \<and> new_comps = [])
              \<or> (new_comps \<noteq> [] \<and> last new_comps = ''..'')
      then normpath_loop initial_slashes comps (new_comps @ [cmp])
      else if new_comps \<noteq> [] then normpath_loop initial_slashes comps (butlast new_comps)
      else normpath_loop initial_slashes comps new_comps)"

definition initial_slashes_of :: "string \<Rightarrow> nat" where
  "initial_slashes_of path =
     (if take 1 path = ''/''
      then (if take 2 path = ''//'' \<and> take 3 path \<noteq> ''///'' then 2 else 1)
      else 0)"

definition os_path_normpath :: "string \<Rightarrow> string" where
  "os_path_normpath path =
     (if path = [] then ''.''
      else
        let initial_slashes = initial_slashes_of path;
            comps = str_split CHR ''/'' path;
            new_comps = normpath_loop initial_slashes comps [];
            joined = str_join ''/'' new_comps;
            result = (if initial_slashes \<noteq> 0
                      then replicate initial_slashes CHR ''/'' @ joined
                      else joined)
        in if result = [] then ''.'' else result)"

section \<open>The path rewriter\<close>

text \<open>
  \<^verbatim>\<open>compute_parameters_with_absolute_paths\<close> has the same body in both classes:
  \<^verbatim>\<open>
  for idx, i in enumerate(parameter_list):
      if i[:2] == '-I' or i[:2] == '-L':
          parameter_list[idx] = i[:2] + os.path.normpath(os.path.join(build_dir, i[2:]))
  return parameter_list
  \<close>
  The loop reads the element at \<open>idx\<close> and assigns to the same index of the same list.
\<close>

function rewrite_loop :: "string \<Rightarrow> nat \<Rightarrow> string list \<Rightarrow> string list" where
  "rewrite_loop build_dir idx parameter_list =
     (if idx < length parameter_list then
        (let i = parameter_list ! idx in
           if take 2 i = ''-I'' \<or> take 2 i = ''-L''
           then rewrite_loop build_dir (Suc idx)
                  (parameter_list[idx := take 2 i @ os_path_normpath (os_path_join build_dir (drop 2 i))])
           else rewrite_loop build_dir (Suc idx) parameter_list)
      else parameter_list)"
  by pat_completeness auto
termination
  by (relation "measure (\<lambda>(build_dir, idx, parameter_list). length parameter_list - idx)") auto

declare rewrite_loop.simps [simp del]

text \<open>
  The argument is a reference to a list object that the caller holds too, so the method
  is modelled on a store of list objects: it takes the address of
  \<^verbatim>\<open>parameter_list\<close> and returns the address of the list it returns, with the
  store after the call.
\<close>

type_synonym ref = nat
type_synonym store = "ref \<Rightarrow> string list"

definition ArmCompiler_compute_parameters_with_absolute_paths ::
    "store \<Rightarrow> ref \<Rightarrow> string \<Rightarrow> ref \<times> store" where
  "ArmCompiler_compute_parameters_with_absolute_paths h parameter_list build_dir =
     (parameter_list, h(parameter_list := rewrite_loop build_dir 0 (h parameter_list)))"

definition ArmclangCompiler_compute_parameters_with_absolute_paths ::
    "store \<Rightarrow> ref \<Rightarrow> string \<Rightarrow> ref \<times> store" where
  "ArmclangCompiler_compute_parameters_with_absolute_paths h parameter_list build_dir =
     (parameter_list, h(parameter_list := rewrite_loop build_dir 0 (h parameter_list)))"

section \<open>The compiler objects and what the module imports\<close>

text \<open>
  The two classes are mixins: the attributes \<^verbatim>\<open>is_cross\<close>, \<^verbatim>\<open>version\<close> and
  \<^verbatim>\<open>can_compile_suffixes\<close> are set by the class they are mixed into before
  \<^verbatim>\<open>__init__\<close> runs, the others are assigned by \<^verbatim>\<open>__init__\<close>. The attribute
  \<^verbatim>\<open>id\<close> is the field \<open>id_attr\<close>.
\<close>

record compiler =
  is_cross :: bool
  version :: string
  can_compile_suffixes :: "string set"
  id_attr :: string
  warn_args :: "(string \<times> string list) list"
  linker_exe :: string
  base_options :: "string list"

text \<open>
  The functions of \<^verbatim>\<open>mesonlib\<close> that \<^verbatim>\<open>__init__\<close> calls are not part of
  \<^verbatim>\<open>arm.py\<close>; they are parameters. \<open>Popen_safe\<close> takes the two positional arguments
  of the call and yields either the text of the \<^verbatim>\<open>OSError\<close> it raised or the triple
  \<^verbatim>\<open>(p, stdo, stderr)\<close>, with the exit status for \<^verbatim>\<open>p\<close>. \<open>version_compare\<close>
  takes the version and the condition string.
\<close>

record mesonlib =
  Popen_safe :: "string \<Rightarrow> string \<Rightarrow> string + (int \<times> string \<times> string)"
  version_compare :: "string \<Rightarrow> string \<Rightarrow> bool"

text \<open>The processes launched so far, each with the arguments of its launch.\<close>

record world =
  launched :: "(string \<times> string) list"

subsection \<open>\<^verbatim>\<open>ArmCompiler.__init__\<close>\<close>

definition ArmCompiler_init :: "compiler \<Rightarrow> world \<Rightarrow> (error + compiler) \<times> world" where
  "ArmCompiler_init self w =
     (if \<not> is_cross self
      then (Inl (EnvironmentException ''armcc supports only cross-compilation.''), w)
      else
        let default_warn_args = [] :: string list
        in (Inr (self\<lparr>id_attr := ''arm'',
                      warn_args := [(''0'', []),
                                    (''1'', default_warn_args),
                                    (''2'', default_warn_args @ []),
                                    (''3'', default_warn_args @ [])],
                      can_compile_suffixes := insert ''s'' (can_compile_suffixes self)\<rparr>),
            w))"

subsection \<open>\<^verbatim>\<open>ArmclangCompiler.__init__\<close>\<close>

text \<open>
  The part after the launch, on the captured standard output. When the first search
  finds nothing, the source builds an \<^verbatim>\<open>EnvironmentException\<close> without raising
  it, \<^verbatim>\<open>ver_str\<close> stays \<^verbatim>\<open>None\<close>, and the \<^verbatim>\<open>assert\<close> that follows
  fails. When the second search finds nothing, \<^verbatim>\<open>linker_ver\<close> stays
  \<^verbatim>\<open>None\<close> and \<^verbatim>\<open>'==' + linker_ver\<close> raises \<^verbatim>\<open>TypeError\<close>.
\<close>

definition verify_armlink_version :: "mesonlib \<Rightarrow> compiler \<Rightarrow> string \<Rightarrow> error + compiler" where
  "verify_armlink_version lib self stdo =
     (let ver_str = (case re_search component_regex stdo of
                       Some m \<Rightarrow> Some (group0 stdo m)
                     | None \<Rightarrow> None)
      in if ver_str = None \<or> ver_str = Some [] then Inl AssertionError
         else
           let linker_ver = (case re_search version_regex (the ver_str) of
                               Some m \<Rightarrow> Some (group0 (the ver_str) m)
                             | None \<Rightarrow> None)
           in if linker_ver = None then Inl TypeError
              else if \<not> version_compare lib (version self) (''=='' @ the linker_ver)
              then Inl (EnvironmentException
                          ''armlink version does not match with compiler version'')
              else Inr (self\<lparr>id_attr := ''armclang'',
                             base_options := [''b_pch'', ''b_lto'', ''b_pgo'',
                                              ''b_sanitize'', ''b_coverage'',
                                              ''b_ndebug'', ''b_staticpic'',
                                              ''b_colorout''],
                             can_compile_suffixes :=
                               can_compile_suffixes self \<union> set (map (\<lambda>c. [c]) ''s'')\<rparr>))"

definition ArmclangCompiler_init ::
    "mesonlib \<Rightarrow> compiler \<Rightarrow> world \<Rightarrow> (error + compiler) \<times> world" where
  "ArmclangCompiler_init lib self w =
     (if \<not> is_cross self
      then (Inl (EnvironmentException ''armclang supports only cross-compilation.''), w)
      else
        let self = self\<lparr>linker_exe := ''armlink''\<rparr>;
            args = ''--vsn'';
            w = w\<lparr>launched := launched w @ [(linker_exe self, args)]\<rparr>
        in case Popen_safe lib (linker_exe self) args of
             Inl e \<Rightarrow>
               (Inl (EnvironmentException
                       (''Unknown linker'' @ [CHR 0x0A] @ ''Running '' @ [CHR 0x22]
                        @ str_join '' '' ([linker_exe self] @ [args])
                        @ [CHR 0x22] @ '' gave '' @ [CHR 0x0A, CHR 0x22] @ e @ [CHR 0x22])),
                w)
           | Inr (p, stdo, stderr) \<Rightarrow> (verify_armlink_version lib self stdo, w))"

section \<open>The capability queries\<close>

subsection \<open>\<^verbatim>\<open>ArmCompiler\<close>\<close>

definition ArmCompiler_get_pic_args :: "string list" where
  "ArmCompiler_get_pic_args = []"

definition ArmCompiler_get_always_args :: "string list" where
  "ArmCompiler_get_always_args = []"

definition ArmCompiler_get_dependency_gen_args :: "string \<Rightarrow> string \<Rightarrow> string list" where
  "ArmCompiler_get_dependency_gen_args outtarget outfile = []"

definition ArmCompiler_get_pch_use_args :: "string \<Rightarrow> string \<Rightarrow> string list" where
  "ArmCompiler_get_pch_use_args pch_dir header = []"

definition ArmCompiler_get_pch_suffix :: string where
  "ArmCompiler_get_pch_suffix = ''pch''"

definition ArmCompiler_get_coverage_args :: "string list" where
  "ArmCompiler_get_coverage_args = []"

subsection \<open>\<^verbatim>\<open>ArmclangCompiler\<close>\<close>

definition ArmclangCompiler_get_pic_args :: "string list" where
  "ArmclangCompiler_get_pic_args = []"

definition ArmclangCompiler_get_pch_suffix :: string where
  "ArmclangCompiler_get_pch_suffix = ''gch''"

text \<open>
  \<^verbatim>\<open>self.get_pch_name\<close> is a method of the class that the mixin is mixed into; it is
  a parameter, and an exception that it raises passes through.
\<close>

definition ArmclangCompiler_get_pch_use_args ::
    "(string \<Rightarrow> error + string) \<Rightarrow> string \<Rightarrow> string \<Rightarrow> error + string list" where
  "ArmclangCompiler_get_pch_use_args get_pch_name pch_dir header =
     (case get_pch_name header of
        Inl e \<Rightarrow> Inl e
      | Inr name \<Rightarrow> Inr [''-include-pch'', os_path_join pch_dir name])"

definition ArmclangCompiler_get_dependency_gen_args :: "string \<Rightarrow> string \<Rightarrow> string list" where
  "ArmclangCompiler_get_dependency_gen_args outtarget outfile = []"

text \<open>
  Modelled from the spec: \<^verbatim>\<open>ArmclangCompiler\<close> does not define
  \<^verbatim>\<open>get_coverage_args\<close>; the method it answers with belongs to a base class outside
  \<^verbatim>\<open>arm.py\<close>. The spec: the coverage-instrumentation query returns an empty list by
  default and never fails.
\<close>

definition ArmclangCompiler_get_coverage_args :: "string list" where
  "ArmclangCompiler_get_coverage_args = []"

text \<open>
  Modelled from the spec: \<^verbatim>\<open>ArmclangCompiler\<close> does not define
  \<^verbatim>\<open>get_always_args\<close>; the method it answers with belongs to a base class outside
  \<^verbatim>\<open>arm.py\<close>. The spec: the query for the always-applied arguments returns an empty
  list by default and never fails.
\<close>

definition ArmclangCompiler_get_always_args :: "string list" where
  "ArmclangCompiler_get_always_args = []"

section \<open>Fixtures\<close>

text \<open>
  Modelled from the spec: \<^verbatim>\<open>mesonlib.version_compare\<close> is not part of
  \<^verbatim>\<open>arm.py\<close>. The spec: the linker's version is compared against the compiler's
  own version using strict equality; the condition string is \<^verbatim>\<open>'=='\<close> followed by
  the version to compare with.
\<close>

definition version_compare_strict :: "string \<Rightarrow> string \<Rightarrow> bool" where
  "version_compare_strict vstr1 vstr2 = (take 2 vstr2 = ''=='' \<and> vstr1 = drop 2 vstr2)"

text \<open>A \<^verbatim>\<open>mesonlib\<close> whose launch of the linker succeeds and prints \<open>stdo\<close>.\<close>

definition lib_printing :: "string \<Rightarrow> mesonlib" where
  "lib_printing stdo =
     \<lparr>Popen_safe = (\<lambda>exe args. Inr (0, stdo, [])), version_compare = version_compare_strict\<rparr>"

text \<open>A cross compiler of the given version, before \<^verbatim>\<open>__init__\<close>.\<close>

definition cross_compiler :: "string \<Rightarrow> compiler" where
  "cross_compiler v =
     \<lparr>is_cross = True, version = v, can_compile_suffixes = {''c''}, id_attr = [],
      warn_args = [], linker_exe = [], base_options = []\<rparr>"

definition native_compiler :: "string \<Rightarrow> compiler" where
  "native_compiler v = (cross_compiler v)\<lparr>is_cross := False\<rparr>"

definition world0 :: world where
  "world0 = \<lparr>launched = []\<rparr>"

text \<open>A store whose object at address 0 is the list \<^verbatim>\<open>['-I../inc']\<close>.\<close>

definition store0 :: store where
  "store0 = (\<lambda>r. [])(0 := [''-I../inc''])"

text \<open>
  A \<^verbatim>\<open>get_pch_name\<close> that returns normally: the header's name with the suffix of the
  precompiled header.
\<close>

definition pch_name_gch :: "string \<Rightarrow> error + string" where
  "pch_name_gch header = Inr (header @ ''.gch'')"

text \<open>A store whose object at address 0 mixes search paths with another flag.\<close>

definition store1 :: store where
  "store1 = (\<lambda>r. [])(0 := [''-I../inc'', ''-c'', ''-Llib/./x''])"

section \<open>The flag tables are total on the vocabulary\<close>

text \<open>
  Claim C5. For both families and each of the six build-type keys
  \<^verbatim>\<open>plain\<close>, \<^verbatim>\<open>debug\<close>, \<^verbatim>\<open>debugoptimized\<close>, \<^verbatim>\<open>release\<close>,
  \<^verbatim>\<open>minsize\<close> and \<^verbatim>\<open>custom\<close>, \<^verbatim>\<open>get_buildtype_args\<close> returns an argument list and
  does not raise; for \<^verbatim>\<open>plain\<close> and \<^verbatim>\<open>custom\<close> the list is empty in both families.
\<close>

theorem buildtype_args_total:
  "(\<forall>k \<in> {''plain'', ''debug'', ''debugoptimized'', ''release'', ''minsize'', ''custom''}.
      (\<exists>args. ArmCompiler_get_buildtype_args k = Inr args) \<and>
      (\<exists>args. ArmclangCompiler_get_buildtype_args k = Inr args))
   \<and> ArmCompiler_get_buildtype_args ''plain'' = Inr []
   \<and> ArmCompiler_get_buildtype_args ''custom'' = Inr []
   \<and> ArmclangCompiler_get_buildtype_args ''plain'' = Inr []
   \<and> ArmclangCompiler_get_buildtype_args ''custom'' = Inr []"
  by (simp add: ArmCompiler_get_buildtype_args_def ArmclangCompiler_get_buildtype_args_def
      dict_getitem_def arm_buildtype_args_def armclang_buildtype_args_def)

theorem buildtype_args_total_witness:
  "''release'' \<in> {''plain'', ''debug'', ''debugoptimized'', ''release'', ''minsize'', ''custom''}
   \<and> (\<exists>args. ArmCompiler_get_buildtype_args ''release'' = Inr args)
   \<and> (\<exists>args. ArmclangCompiler_get_buildtype_args ''release'' = Inr args)"
proof -
  have mem: "''release'' \<in> {''plain'', ''debug'', ''debugoptimized'', ''release'', ''minsize'', ''custom''}"
    by simp
  from buildtype_args_total
  have "\<forall>k \<in> {''plain'', ''debug'', ''debugoptimized'', ''release'', ''minsize'', ''custom''}.
      (\<exists>args. ArmCompiler_get_buildtype_args k = Inr args) \<and>
      (\<exists>args. ArmclangCompiler_get_buildtype_args k = Inr args)"
    by (rule conjunct1)
  from bspec [OF this mem] mem show ?thesis by blast
qed

text \<open>
  Claim C6. For both families and every optimization key among \<^verbatim>\<open>0\<close>, \<^verbatim>\<open>1\<close>,
  \<^verbatim>\<open>2\<close>, \<^verbatim>\<open>3\<close> the result of \<^verbatim>\<open>get_optimization_args\<close> is the list of the
  one token \<^verbatim>\<open>-O\<close> followed by the key, and for \<^verbatim>\<open>g\<close> it is the list of the one
  token \<^verbatim>\<open>-g\<close>; for the key \<^verbatim>\<open>s\<close> the arm family returns the empty list and the
  armclang family returns \<^verbatim>\<open>['-Os']\<close>.
\<close>

theorem optimization_args_table:
  "(\<forall>k \<in> {''0'', ''1'', ''2'', ''3''}.
      ArmCompiler_get_optimization_args k = Inr [''-O'' @ k] \<and>
      ArmclangCompiler_get_optimization_args k = Inr [''-O'' @ k])
   \<and> ArmCompiler_get_optimization_args ''g'' = Inr [''-g'']
   \<and> ArmclangCompiler_get_optimization_args ''g'' = Inr [''-g'']
   \<and> ArmCompiler_get_optimization_args ''s'' = Inr []
   \<and> ArmclangCompiler_get_optimization_args ''s'' = Inr [''-Os'']"
  by (simp add: ArmCompiler_get_optimization_args_def ArmclangCompiler_get_optimization_args_def
      dict_getitem_def arm_optimization_args_def armclang_optimization_args_def)

theorem optimization_args_table_witness:
  "''2'' \<in> {''0'', ''1'', ''2'', ''3''}
   \<and> ArmCompiler_get_optimization_args ''2'' = Inr [''-O2'']
   \<and> ArmclangCompiler_get_optimization_args ''2'' = Inr [''-O2'']"
proof -
  have mem: "''2'' \<in> {''0'', ''1'', ''2'', ''3''}"
    by simp
  from optimization_args_table
  have "\<forall>k \<in> {''0'', ''1'', ''2'', ''3''}.
      ArmCompiler_get_optimization_args k = Inr [''-O'' @ k] \<and>
      ArmclangCompiler_get_optimization_args k = Inr [''-O'' @ k]"
    by (rule conjunct1)
  from bspec [OF this mem] mem show ?thesis by simp
qed

section \<open>Construction of a native compiler is refused before any launch\<close>

lemma is_cross_native: "\<not> is_cross (native_compiler v)"
  by (simp add: native_compiler_def cross_compiler_def)

text \<open>
  The log of launches does record the launch of a cross compiler's construction, so that
  an unchanged log means that nothing was launched.
\<close>

lemma armclang_init_launches:
  "is_cross self \<Longrightarrow>
     launched (snd (ArmclangCompiler_init lib self w)) = launched w @ [(''armlink'', ''--vsn'')]"
  by (simp add: ArmclangCompiler_init_def Let_def split: sum.splits prod.splits)

lemma arm_init_never_launches: "snd (ArmCompiler_init self w) = w"
  by (simp add: ArmCompiler_init_def)

text \<open>
  Claim C3. Constructing either ARM-family profile with the cross-compilation flag false
  fails at once with the \<^verbatim>\<open>EnvironmentException\<close> that says that the family supports
  only cross-compilation, and launches no process: the log of launches is as it was.
\<close>

theorem cross_compilation_required:
  "\<not> is_cross self \<Longrightarrow>
     ArmCompiler_init self w =
       (Inl (EnvironmentException ''armcc supports only cross-compilation.''), w)
     \<and> ArmclangCompiler_init lib self w =
       (Inl (EnvironmentException ''armclang supports only cross-compilation.''), w)
     \<and> launched (snd (ArmCompiler_init self w)) = launched w
     \<and> launched (snd (ArmclangCompiler_init lib self w)) = launched w"
  by (simp add: ArmCompiler_init_def ArmclangCompiler_init_def)

theorem cross_compilation_required_witness:
  "\<not> is_cross (native_compiler ''6.15'')
   \<and> ArmCompiler_init (native_compiler ''6.15'') world0 =
       (Inl (EnvironmentException ''armcc supports only cross-compilation.''), world0)
   \<and> ArmclangCompiler_init (lib_printing ''Component: 6.15'') (native_compiler ''6.15'') world0 =
       (Inl (EnvironmentException ''armclang supports only cross-compilation.''), world0)
   \<and> launched (snd (ArmclangCompiler_init (lib_printing ''Component: 6.15'')
        (native_compiler ''6.15'') world0)) = []"
proof -
  have h: "\<not> is_cross (native_compiler ''6.15'')"
    by (rule is_cross_native)
  from cross_compilation_required [OF h, of world0 "lib_printing ''Component: 6.15''"] h
  show ?thesis by (simp add: world0_def)
qed

section \<open>The path rewriter as a map over the tokens\<close>

lemma rewrite_loop_length: "length (rewrite_loop build_dir idx xs) = length xs"
proof (induction build_dir idx xs rule: rewrite_loop.induct)
  case (1 build_dir idx xs)
  show ?case
  proof (cases "idx < length xs")
    case True
    with "1.IH" show ?thesis
      by (subst rewrite_loop.simps) (auto simp: Let_def)
  next
    case False
    then show ?thesis
      by (subst rewrite_loop.simps) simp
  qed
qed

lemma rewrite_loop_map:
  "rewrite_loop build_dir idx xs =
     take idx xs @
     map (\<lambda>i. if take 2 i = ''-I'' \<or> take 2 i = ''-L''
               then take 2 i @ os_path_normpath (os_path_join build_dir (drop 2 i))
               else i)
         (drop idx xs)"
proof (induction build_dir idx xs rule: rewrite_loop.induct)
  case (1 build_dir idx xs)
  show ?case
  proof (cases "idx < length xs")
    case True
    then have d: "drop idx xs = xs ! idx # drop (Suc idx) xs"
      by (simp add: Cons_nth_drop_Suc)
    show ?thesis
    proof (cases "take 2 (xs ! idx) = ''-I'' \<or> take 2 (xs ! idx) = ''-L''")
      case pre: True
      have "rewrite_loop build_dir idx xs =
              rewrite_loop build_dir (Suc idx)
                (xs[idx := take 2 (xs ! idx) @
                   os_path_normpath (os_path_join build_dir (drop 2 (xs ! idx)))])"
        using True pre by (subst rewrite_loop.simps) (simp add: Let_def)
      also note "1.IH"(1) [OF True refl pre]
      finally show ?thesis
        using True pre by (simp add: d take_Suc_conv_app_nth)
    next
      case nopre: False
      have "rewrite_loop build_dir idx xs = rewrite_loop build_dir (Suc idx) xs"
        using True nopre by (subst rewrite_loop.simps) (simp add: Let_def)
      also note "1.IH"(2) [OF True refl nopre]
      finally show ?thesis
        using True nopre by (simp add: d take_Suc_conv_app_nth)
    qed
  next
    case False
    then show ?thesis
      by (subst rewrite_loop.simps) simp
  qed
qed

section \<open>What \<^verbatim>\<open>normpath\<close> leaves of a path\<close>

lemma str_split_nonempty: "str_split sep s \<noteq> []"
  by (induction s) (auto split: list.splits)

lemma str_split_no_sep: "w \<in> set (str_split sep s) \<Longrightarrow> sep \<notin> set w"
proof (induction s arbitrary: w)
  case Nil
  then show ?case by simp
next
  case (Cons c cs)
  show ?case
  proof (cases "c = sep")
    case True
    with Cons show ?thesis by auto
  next
    case False
    obtain v vs where vs: "str_split sep cs = v # vs"
      using str_split_nonempty [of sep cs] by (cases "str_split sep cs") auto
    with Cons False show ?thesis by auto
  qed
qed

lemma str_split_no_sep_id: "sep \<notin> set x \<Longrightarrow> str_split sep x = [x]"
  by (induction x) auto

lemma str_split_append_sep:
  "sep \<notin> set x \<Longrightarrow> str_split sep (x @ sep # s) = x # str_split sep s"
  by (induction x) auto

lemma str_split_join:
  "xs \<noteq> [] \<Longrightarrow> \<forall>x \<in> set xs. sep \<notin> set x \<Longrightarrow> str_split sep (str_join [sep] xs) = xs"
proof (induction xs)
  case Nil
  then show ?case by simp
next
  case outer: (Cons x xs)
  show ?case
  proof (cases xs)
    case Nil
    with outer.prems show ?thesis by (simp add: str_split_no_sep_id)
  next
    case inner: (Cons v va)
    have ih: "str_split sep (str_join [sep] (v # va)) = v # va"
      using outer.IH outer.prems unfolding inner by simp
    have x: "sep \<notin> set x"
      using outer.prems by simp
    have "str_split sep (str_join [sep] (x # v # va)) =
            str_split sep (x @ sep # str_join [sep] (v # va))"
      by simp
    also have "\<dots> = x # str_split sep (str_join [sep] (v # va))"
      using x by (rule str_split_append_sep)
    finally show ?thesis
      unfolding inner ih .
  qed
qed

lemma str_split_replicate:
  "str_split sep (replicate k sep @ s) = replicate k [] @ str_split sep s"
  by (induction k) auto

lemma str_split_replicate_only:
  "str_split sep (replicate k sep) = replicate k [] @ [[]]"
  by (induction k) auto

lemma normpath_loop_invariant:
  assumes init: "P acc"
    and app: "\<And>a c. P a \<Longrightarrow> c \<in> set comps \<Longrightarrow> c \<noteq> [] \<Longrightarrow> c \<noteq> ''.'' \<Longrightarrow>
                c \<noteq> ''..'' \<or> (n = 0 \<and> a = []) \<or> (a \<noteq> [] \<and> last a = ''..'') \<Longrightarrow> P (a @ [c])"
    and pop: "\<And>a. P a \<Longrightarrow> a \<noteq> [] \<Longrightarrow> P (butlast a)"
  shows "P (normpath_loop n comps acc)"
  using init app
proof (induction comps arbitrary: acc)
  case Nil
  then show ?case by simp
next
  case (Cons c comps)
  have step: "P (normpath_loop n comps a)" if "P a" for a
  proof (rule Cons.IH [OF that])
    fix a' c'
    assume "P a'" "c' \<in> set comps" "c' \<noteq> []" "c' \<noteq> ''.''"
      "c' \<noteq> ''..'' \<or> (n = 0 \<and> a' = []) \<or> (a' \<noteq> [] \<and> last a' = ''..'')"
    then show "P (a' @ [c'])"
      using Cons.prems(2) [of a' c'] by simp
  qed
  show ?case
  proof (cases "c = [] \<or> c = ''.''")
    case True
    then have "normpath_loop n (c # comps) acc = normpath_loop n comps acc"
      by auto
    then show ?thesis
      using step [OF Cons.prems(1)] by simp
  next
    case skip: False
    show ?thesis
    proof (cases "c \<noteq> ''..'' \<or> (n = 0 \<and> acc = []) \<or> (acc \<noteq> [] \<and> last acc = ''..'')")
      case True
      have "P (acc @ [c])"
        using Cons.prems(2) [of acc c] Cons.prems(1) skip True by simp
      from step [OF this] skip True show ?thesis
        by simp
    next
      case noapp: False
      show ?thesis
      proof (cases "acc = []")
        case True
        with skip noapp step [OF Cons.prems(1)] show ?thesis by simp
      next
        case False
        have "P (butlast acc)"
          using Cons.prems(1) False by (rule pop)
        from step [OF this] skip noapp False show ?thesis
          by simp
      qed
    qed
  qed
qed

lemma normpath_loop_no_dot:
  assumes "[] \<notin> set acc" and "''.'' \<notin> set acc"
  shows "[] \<notin> set (normpath_loop n comps acc) \<and> ''.'' \<notin> set (normpath_loop n comps acc)"
proof (rule normpath_loop_invariant [where P = "\<lambda>a. [] \<notin> set a \<and> ''.'' \<notin> set a"])
  show "[] \<notin> set acc \<and> ''.'' \<notin> set acc"
    using assms by simp
next
  fix a c
  assume "[] \<notin> set a \<and> ''.'' \<notin> set a" "c \<noteq> []" "c \<noteq> ''.''"
  then show "[] \<notin> set (a @ [c]) \<and> ''.'' \<notin> set (a @ [c])"
    by simp
next
  fix a :: "string list"
  assume "[] \<notin> set a \<and> ''.'' \<notin> set a"
  then show "[] \<notin> set (butlast a) \<and> ''.'' \<notin> set (butlast a)"
    by (blast dest: in_set_butlastD)
qed

lemma normpath_loop_no_dotdot:
  assumes "0 < n" and "''..'' \<notin> set acc"
  shows "''..'' \<notin> set (normpath_loop n comps acc)"
proof (rule normpath_loop_invariant [where P = "\<lambda>a. ''..'' \<notin> set a"])
  show "''..'' \<notin> set acc"
    using assms by simp
next
  fix a c
  assume a: "''..'' \<notin> set a"
    and c: "c \<noteq> ''..'' \<or> (n = 0 \<and> a = []) \<or> (a \<noteq> [] \<and> last a = ''..'')"
  have "a \<noteq> [] \<Longrightarrow> last a \<noteq> ''..''"
    using a last_in_set [of a] by metis
  with c assms(1) have "c \<noteq> ''..''"
    by blast
  with a show "''..'' \<notin> set (a @ [c])"
    by simp
next
  fix a :: "string list"
  assume "''..'' \<notin> set a"
  then show "''..'' \<notin> set (butlast a)"
    by (blast dest: in_set_butlastD)
qed

lemma normpath_loop_no_sep:
  assumes "\<forall>x \<in> set comps. sep \<notin> set x" and "\<forall>x \<in> set acc. sep \<notin> set x"
  shows "\<forall>x \<in> set (normpath_loop n comps acc). sep \<notin> set x"
proof (rule normpath_loop_invariant [where P = "\<lambda>a. \<forall>x \<in> set a. sep \<notin> set x"])
  show "\<forall>x \<in> set acc. sep \<notin> set x"
    using assms by simp
next
  fix a c
  assume "\<forall>x \<in> set a. sep \<notin> set x" "c \<in> set comps"
  with assms(1) show "\<forall>x \<in> set (a @ [c]). sep \<notin> set x"
    by simp
next
  fix a :: "string list"
  assume "\<forall>x \<in> set a. sep \<notin> set x"
  then show "\<forall>x \<in> set (butlast a). sep \<notin> set x"
    by (blast dest: in_set_butlastD)
qed


lemma str_join_eq_Nil:
  "[] \<notin> set xs \<Longrightarrow> str_join sep xs = [] \<longleftrightarrow> xs = []"
  by (induction sep xs rule: str_join.induct) auto

lemma initial_slashes_of_pos: "0 < initial_slashes_of path \<longleftrightarrow> take 1 path = ''/''"
  by (simp add: initial_slashes_of_def)

lemma normpath_comps_facts:
  defines "nc \<equiv> \<lambda>path. normpath_loop (initial_slashes_of path) (str_split CHR ''/'' path) []"
  shows "[] \<notin> set (nc path)" and "''.'' \<notin> set (nc path)"
    and "\<forall>x \<in> set (nc path). CHR ''/'' \<notin> set x"
    and "take 1 path = ''/'' \<Longrightarrow> ''..'' \<notin> set (nc path)"
proof -
  show "[] \<notin> set (nc path)" and "''.'' \<notin> set (nc path)"
    using normpath_loop_no_dot [of "[]" "initial_slashes_of path" "str_split CHR ''/'' path"]
    by (simp_all add: nc_def)
  show "\<forall>x \<in> set (nc path). CHR ''/'' \<notin> set x"
    unfolding nc_def
    by (rule normpath_loop_no_sep) (simp_all add: str_split_no_sep)
  show "''..'' \<notin> set (nc path)" if "take 1 path = ''/''"
    unfolding nc_def
    using that by (intro normpath_loop_no_dotdot) (simp_all add: initial_slashes_of_pos)
qed

lemma normpath_split:
  assumes "path \<noteq> []"
  shows "os_path_normpath path = ''.'' \<or>
         set (str_split CHR ''/'' (os_path_normpath path)) \<subseteq>
           insert [] (set (normpath_loop (initial_slashes_of path) (str_split CHR ''/'' path) []))"
proof -
  define k where "k = initial_slashes_of path"
  define nc where "nc = normpath_loop k (str_split CHR ''/'' path) []"
  have nc: "[] \<notin> set nc" "\<forall>x \<in> set nc. CHR ''/'' \<notin> set x"
    using normpath_comps_facts(1,3) [of path] by (simp_all add: nc_def k_def)
  have res: "os_path_normpath path =
      (if replicate k CHR ''/'' @ str_join ''/'' nc = [] then ''.''
       else replicate k CHR ''/'' @ str_join ''/'' nc)"
    using assms by (simp add: os_path_normpath_def Let_def k_def nc_def)
  show ?thesis
  proof (cases "nc = []")
    case True
    then have "str_split CHR ''/'' (replicate k CHR ''/'' @ str_join ''/'' nc) = replicate k [] @ [[]]"
      by (simp add: str_split_replicate_only)
    then show ?thesis
      unfolding res nc_def [symmetric] k_def [symmetric] by auto
  next
    case False
    then have "str_join ''/'' nc \<noteq> []"
      using nc(1) by (simp add: str_join_eq_Nil)
    moreover have "str_split CHR ''/'' (replicate k CHR ''/'' @ str_join ''/'' nc) = replicate k [] @ nc"
      using False nc(2) by (simp add: str_split_replicate str_split_join)
    ultimately show ?thesis
      unfolding res nc_def [symmetric] k_def [symmetric] by auto
  qed
qed

lemma normpath_no_dot_component:
  "os_path_normpath path = ''.'' \<or> ''.'' \<notin> set (str_split CHR ''/'' (os_path_normpath path))"
proof (cases "path = []")
  case True
  then show ?thesis by (simp add: os_path_normpath_def)
next
  case False
  from normpath_split [OF this] normpath_comps_facts(2) [of path] show ?thesis
    by auto
qed

lemma normpath_no_dotdot_component:
  assumes "take 1 path = ''/''"
  shows "''..'' \<notin> set (str_split CHR ''/'' (os_path_normpath path))"
proof -
  from assms have ne: "path \<noteq> []" by auto
  from normpath_split [OF ne] show ?thesis
  proof
    assume "os_path_normpath path = ''.''"
    then show ?thesis by simp
  next
    assume "set (str_split CHR ''/'' (os_path_normpath path)) \<subseteq>
           insert [] (set (normpath_loop (initial_slashes_of path) (str_split CHR ''/'' path) []))"
    with normpath_comps_facts(4) [OF assms] show ?thesis
      by auto
  qed
qed

lemma os_path_join_absolute:
  "take 1 a = ''/'' \<Longrightarrow> take 1 (os_path_join a b) = ''/''"
  by (cases a) (auto simp: os_path_join_def)

section \<open>The path rewriter works on the caller's list\<close>

lemma armclang_rewriter_same:
  "ArmclangCompiler_compute_parameters_with_absolute_paths =
   ArmCompiler_compute_parameters_with_absolute_paths"
  by (intro ext)
    (simp add: ArmclangCompiler_compute_parameters_with_absolute_paths_def
      ArmCompiler_compute_parameters_with_absolute_paths_def)

lemma arm_rewriter_map:
  "ArmCompiler_compute_parameters_with_absolute_paths h r build_dir =
     (r, h(r := map (\<lambda>i. if take 2 i = ''-I'' \<or> take 2 i = ''-L''
                           then take 2 i @ os_path_normpath (os_path_join build_dir (drop 2 i))
                           else i) (h r)))"
  by (simp add: ArmCompiler_compute_parameters_with_absolute_paths_def rewrite_loop_map)

lemma store0_example:
  "ArmCompiler_compute_parameters_with_absolute_paths store0 0 ''/build'' =
     (0, store0(0 := [''-I/inc'']))"
  unfolding arm_rewriter_map
  by (simp add: store0_def os_path_join_def os_path_normpath_def initial_slashes_of_def)

lemma store1_example:
  "ArmCompiler_compute_parameters_with_absolute_paths store1 0 ''/build'' =
     (0, store1(0 := [''-I/inc'', ''-c'', ''-L/build/lib/x'']))"
  unfolding arm_rewriter_map
  by (simp add: store1_def os_path_join_def os_path_normpath_def initial_slashes_of_def)

lemma take2_length:
  assumes "take 2 i = [a, b]"
  shows "2 \<le> length i"
proof -
  have "length (take 2 i) = 2"
    unfolding assms by simp
  then show ?thesis
    by simp
qed

lemma rewritten_prefix:
  assumes "take 2 i = ''-I'' \<or> take 2 i = ''-L''"
  shows "take 2 (take 2 i @ x) = take 2 i"
proof -
  from assms have "2 \<le> length i"
    by (auto dest: take2_length)
  then show ?thesis
    by simp
qed

text \<open>
  Claim C4, as the spec states it: the path rewriter leaves the caller's list untouched
  and returns a fresh list. It does not: for the list \<^verbatim>\<open>['-I../inc']\<close> at address
  0 and the base directory \<^verbatim>\<open>/build\<close> the list returned is the object at
  address 0 itself, and that object no longer holds what it held before the call.
\<close>

theorem rewriter_mutates_input_counterexample:
  "fst (ArmCompiler_compute_parameters_with_absolute_paths store0 0 ''/build'') = 0
   \<and> snd (ArmCompiler_compute_parameters_with_absolute_paths store0 0 ''/build'') 0 \<noteq> store0 0"
  unfolding store0_example by (simp add: store0_def)

text \<open>
  Claim C4, amended: in both classes the path rewriter returns the list object that it was
  given, after overwriting in place each token that starts with \<^verbatim>\<open>-I\<close> or
  \<^verbatim>\<open>-L\<close> with the prefix followed by the normalised join of the base directory
  and the rest of the token; every other token and every other object of the store is as
  before.
\<close>

theorem rewriter_updates_in_place:
  "ArmCompiler_compute_parameters_with_absolute_paths h r build_dir =
     (r, h(r := map (\<lambda>i. if take 2 i = ''-I'' \<or> take 2 i = ''-L''
                           then take 2 i @ os_path_normpath (os_path_join build_dir (drop 2 i))
                           else i) (h r)))
   \<and> ArmclangCompiler_compute_parameters_with_absolute_paths h r build_dir =
     (r, h(r := map (\<lambda>i. if take 2 i = ''-I'' \<or> take 2 i = ''-L''
                           then take 2 i @ os_path_normpath (os_path_join build_dir (drop 2 i))
                           else i) (h r)))"
  unfolding armclang_rewriter_same arm_rewriter_map by simp

text \<open>
  Claim C7. For every argument list and base directory the rewriter, in both classes,
  replaces each token whose first two characters are \<^verbatim>\<open>-I\<close> or \<^verbatim>\<open>-L\<close> by
  these two characters followed by \<^verbatim>\<open>normpath(join(base_dir, rest))\<close> and leaves
  every other token as it is and where it is. The normalised path has no \<^verbatim>\<open>.\<close>
  component unless it is \<^verbatim>\<open>.\<close> itself, and no \<^verbatim>\<open>..\<close> component when the
  base directory is absolute. The list \<^verbatim>\<open>['-I../inc']\<close> with the base directory
  \<^verbatim>\<open>/build\<close> becomes \<^verbatim>\<open>['-I/inc']\<close>.
\<close>

theorem rewriter_rewrites_search_paths:
  "snd (ArmCompiler_compute_parameters_with_absolute_paths h r build_dir) r =
     map (\<lambda>i. if take 2 i = ''-I'' \<or> take 2 i = ''-L''
               then take 2 i @ os_path_normpath (os_path_join build_dir (drop 2 i))
               else i) (h r)
   \<and> snd (ArmclangCompiler_compute_parameters_with_absolute_paths h r build_dir) r =
     map (\<lambda>i. if take 2 i = ''-I'' \<or> take 2 i = ''-L''
               then take 2 i @ os_path_normpath (os_path_join build_dir (drop 2 i))
               else i) (h r)
   \<and> (os_path_normpath (os_path_join build_dir rest) \<noteq> ''.'' \<longrightarrow>
        ''.'' \<notin> set (str_split CHR ''/'' (os_path_normpath (os_path_join build_dir rest))))
   \<and> (take 1 build_dir = ''/'' \<longrightarrow>
        ''..'' \<notin> set (str_split CHR ''/'' (os_path_normpath (os_path_join build_dir rest))))
   \<and> snd (ArmCompiler_compute_parameters_with_absolute_paths store0 0 ''/build'') 0 = [''-I/inc'']
   \<and> snd (ArmclangCompiler_compute_parameters_with_absolute_paths store0 0 ''/build'') 0 = [''-I/inc'']"
proof -
  have "os_path_normpath (os_path_join build_dir rest) \<noteq> ''.'' \<longrightarrow>
        ''.'' \<notin> set (str_split CHR ''/'' (os_path_normpath (os_path_join build_dir rest)))"
    using normpath_no_dot_component [of "os_path_join build_dir rest"] by blast
  moreover have "take 1 build_dir = ''/'' \<longrightarrow>
        ''..'' \<notin> set (str_split CHR ''/'' (os_path_normpath (os_path_join build_dir rest)))"
    using normpath_no_dotdot_component [OF os_path_join_absolute] by blast
  moreover have "snd (ArmCompiler_compute_parameters_with_absolute_paths store0 0 ''/build'') 0 =
      [''-I/inc'']"
    by (simp add: store0_example)
  ultimately show ?thesis
    unfolding armclang_rewriter_same by (simp add: arm_rewriter_map)
qed

theorem rewriter_rewrites_search_paths_witness:
  "os_path_normpath (os_path_join ''/build'' ''../inc'') = ''/inc''
   \<and> take 1 ''/build'' = ''/''
   \<and> str_split CHR ''/'' (os_path_normpath (os_path_join ''/build'' ''../inc'')) = [[], ''inc'']
   \<and> snd (ArmCompiler_compute_parameters_with_absolute_paths store1 0 ''/build'') 0 =
       [''-I/inc'', ''-c'', ''-L/build/lib/x'']"
proof -
  have n: "os_path_normpath (os_path_join ''/build'' ''../inc'') = ''/inc''"
    by (simp add: os_path_join_def os_path_normpath_def initial_slashes_of_def)
  have a: "take 1 ''/build'' = ''/''"
    by simp
  have s: "str_split CHR ''/'' ''/inc'' = [[], ''inc'']"
    by simp
  from rewriter_rewrites_search_paths [of store1 0 "''/build''" "''../inc''"] n a s
  show ?thesis
    by (simp add: store1_def os_path_join_def os_path_normpath_def initial_slashes_of_def)
qed

text \<open>
  Claim C8. For every argument list and base directory the list after the call has as
  many tokens as before; the token at each index comes from the token that was at that
  index and starts with the same two characters; a token that starts with neither
  \<^verbatim>\<open>-I\<close> nor \<^verbatim>\<open>-L\<close> is unchanged, and is still unchanged after a second
  call on the result, with any base directory.
\<close>

theorem rewriter_keeps_count_order_prefix:
  "length (snd (ArmCompiler_compute_parameters_with_absolute_paths h r build_dir) r) = length (h r)
   \<and> (\<forall>idx < length (h r).
        snd (ArmCompiler_compute_parameters_with_absolute_paths h r build_dir) r ! idx =
          (if take 2 (h r ! idx) = ''-I'' \<or> take 2 (h r ! idx) = ''-L''
           then take 2 (h r ! idx) @ os_path_normpath (os_path_join build_dir (drop 2 (h r ! idx)))
           else h r ! idx)
        \<and> take 2 (snd (ArmCompiler_compute_parameters_with_absolute_paths h r build_dir) r ! idx) =
            take 2 (h r ! idx)
        \<and> (take 2 (h r ! idx) \<noteq> ''-I'' \<and> take 2 (h r ! idx) \<noteq> ''-L'' \<longrightarrow>
             snd (ArmCompiler_compute_parameters_with_absolute_paths
                    (snd (ArmCompiler_compute_parameters_with_absolute_paths h r build_dir))
                    (fst (ArmCompiler_compute_parameters_with_absolute_paths h r build_dir))
                    build_dir') r ! idx = h r ! idx))"
  unfolding arm_rewriter_map by (auto simp: rewritten_prefix intro: take2_length)

theorem rewriter_keeps_count_order_prefix_witness:
  "(1::nat) < length (store1 0)
   \<and> take 2 (store1 0 ! 1) \<noteq> ''-I'' \<and> take 2 (store1 0 ! 1) \<noteq> ''-L''
   \<and> length (snd (ArmCompiler_compute_parameters_with_absolute_paths store1 0 ''/build'') 0) = 3
   \<and> snd (ArmCompiler_compute_parameters_with_absolute_paths store1 0 ''/build'') 0 ! 1 = ''-c''
   \<and> snd (ArmCompiler_compute_parameters_with_absolute_paths
            (snd (ArmCompiler_compute_parameters_with_absolute_paths store1 0 ''/build''))
            (fst (ArmCompiler_compute_parameters_with_absolute_paths store1 0 ''/build''))
            ''/other'') 0 ! 1 = ''-c''"
proof -
  have l: "(1::nat) < length (store1 0)"
    by (simp add: store1_def)
  have p: "take 2 (store1 0 ! 1) \<noteq> ''-I'' \<and> take 2 (store1 0 ! 1) \<noteq> ''-L''"
    by (simp add: store1_def)
  have v: "store1 0 ! 1 = ''-c''" "length (store1 0) = 3"
    by (simp_all add: store1_def)
  from rewriter_keeps_count_order_prefix [of store1 0 "''/build''" "''/other''"]
  have "length (snd (ArmCompiler_compute_parameters_with_absolute_paths store1 0 ''/build'') 0) =
          length (store1 0)"
    and "\<forall>idx < length (store1 0).
        snd (ArmCompiler_compute_parameters_with_absolute_paths store1 0 ''/build'') 0 ! idx =
          (if take 2 (store1 0 ! idx) = ''-I'' \<or> take 2 (store1 0 ! idx) = ''-L''
           then take 2 (store1 0 ! idx) @ os_path_normpath (os_path_join ''/build'' (drop 2 (store1 0 ! idx)))
           else store1 0 ! idx)
        \<and> take 2 (snd (ArmCompiler_compute_parameters_with_absolute_paths store1 0 ''/build'') 0 ! idx) =
            take 2 (store1 0 ! idx)
        \<and> (take 2 (store1 0 ! idx) \<noteq> ''-I'' \<and> take 2 (store1 0 ! idx) \<noteq> ''-L'' \<longrightarrow>
             snd (ArmCompiler_compute_parameters_with_absolute_paths
                    (snd (ArmCompiler_compute_parameters_with_absolute_paths store1 0 ''/build''))
                    (fst (ArmCompiler_compute_parameters_with_absolute_paths store1 0 ''/build''))
                    ''/other'') 0 ! idx = store1 0 ! idx)"
    by blast+
  from this(1) spec [OF this(2), of 1] l p v show ?thesis
    by simp
qed

section \<open>The capability queries return values\<close>

text \<open>
  Claim C9. In both families the queries for the position-independent-code arguments, the
  arguments that use a precompiled header, the suffix of a precompiled header, the
  arguments that generate a dependency file, the coverage arguments and the always-applied
  arguments return a value and raise nothing of their own; a capability without support is
  the empty list. The suffix is \<^verbatim>\<open>pch\<close> for arm and \<^verbatim>\<open>gch\<close> for armclang,
  and armclang supports precompiled headers: its query returns
  \<^verbatim>\<open>['-include-pch', join(pch_dir, name)]\<close> whenever \<^verbatim>\<open>get_pch_name\<close> returns
  the name.
\<close>

theorem capability_queries_never_fail:
  "ArmCompiler_get_pic_args = []
   \<and> ArmCompiler_get_pch_use_args pch_dir header = []
   \<and> ArmCompiler_get_pch_suffix = ''pch''
   \<and> ArmCompiler_get_dependency_gen_args outtarget outfile = []
   \<and> ArmCompiler_get_coverage_args = []
   \<and> ArmCompiler_get_always_args = []
   \<and> ArmclangCompiler_get_pic_args = []
   \<and> (get_pch_name header = Inr name \<longrightarrow>
         ArmclangCompiler_get_pch_use_args get_pch_name pch_dir header =
           Inr [''-include-pch'', os_path_join pch_dir name])
   \<and> ArmclangCompiler_get_pch_suffix = ''gch''
   \<and> ArmclangCompiler_get_dependency_gen_args outtarget outfile = []
   \<and> ArmclangCompiler_get_coverage_args = []
   \<and> ArmclangCompiler_get_always_args = []"
  by (simp add: ArmCompiler_get_pic_args_def ArmCompiler_get_pch_use_args_def
      ArmCompiler_get_pch_suffix_def ArmCompiler_get_dependency_gen_args_def
      ArmCompiler_get_coverage_args_def ArmCompiler_get_always_args_def
      ArmclangCompiler_get_pic_args_def ArmclangCompiler_get_pch_use_args_def
      ArmclangCompiler_get_pch_suffix_def ArmclangCompiler_get_dependency_gen_args_def
      ArmclangCompiler_get_coverage_args_def ArmclangCompiler_get_always_args_def)

theorem capability_queries_never_fail_witness:
  "pch_name_gch ''foo.h'' = Inr ''foo.h.gch''
   \<and> ArmclangCompiler_get_pch_use_args pch_name_gch ''pchdir'' ''foo.h'' =
       Inr [''-include-pch'', ''pchdir/foo.h.gch'']"
proof -
  have h: "pch_name_gch ''foo.h'' = Inr ''foo.h.gch''"
    by (simp add: pch_name_gch_def)
  from capability_queries_never_fail [of "''pchdir''" "''foo.h''" _ _ pch_name_gch "''foo.h.gch''"] h
  show ?thesis
    by (simp add: os_path_join_def)
qed

section \<open>What a match of the two patterns looks like\<close>

lemma search_from_SomeD:
  "search_from r s p = Some (a, b) \<Longrightarrow>
     p \<le> a \<and> a \<le> length s \<and> ends r s a \<noteq> [] \<and> b = hd (ends r s a)"
proof (induction r s p rule: search_from.induct)
  case (1 r s p)
  show ?case
  proof (cases "ends r s p")
    case Nil
    with "1.prems" have le: "\<not> length s < p" and rec: "search_from r s (Suc p) = Some (a, b)"
      by (subst (asm) search_from.simps, simp split: if_splits)+
    from "1.IH" [OF le Nil rec] show ?thesis
      by simp
  next
    case (Cons e es)
    with "1.prems" have "\<not> length s < p" and "a = p" and "b = e"
      by (subst (asm) search_from.simps, simp split: if_splits)+
    with Cons show ?thesis
      by simp
  qed
qed

lemma re_search_SomeD:
  "re_search r s = Some (a, b) \<Longrightarrow> a \<le> length s \<and> b \<in> set (ends r s a)"
  by (auto simp: re_search_def dest!: search_from_SomeD)

lemma set_rep_ends:
  "e \<in> set (rep_ends f n lo hi p) \<longleftrightarrow>
     (lo = 0 \<and> e = p) \<or>
     (hi \<noteq> Some 0 \<and>
      (\<exists>m \<in> set (f p). p < m \<and> m \<le> n \<and>
         e \<in> set (rep_ends f n (lo - 1) (map_option (\<lambda>k. k - 1) hi) m)))"
  by (subst rep_ends.simps) auto

lemma rep_ends_range:
  "e \<in> set (rep_ends f n lo hi p) \<Longrightarrow> p \<le> e \<and> (e = p \<or> e \<le> n)"
proof (induction f n lo hi p arbitrary: e rule: rep_ends.induct)
  case (1 f n lo hi p)
  from "1.prems" consider
      (stop) "e = p"
    | (iter) m where "hi \<noteq> Some 0" "m \<in> set (f p)" "p < m \<and> m \<le> n"
        "e \<in> set (rep_ends f n (lo - 1) (map_option (\<lambda>k. k - 1) hi) m)"
    unfolding set_rep_ends [of e f n lo hi p] by blast
  then show ?case
  proof cases
    case stop
    then show ?thesis by simp
  next
    case iter
    from "1.IH" [OF iter] iter(3) show ?thesis
      by auto
  qed
qed

lemma ends_Sym_iff:
  "e \<in> set (ends (Sym P) s p) \<longleftrightarrow> p < length s \<and> P (s ! p) \<and> e = Suc p"
  by auto

lemma ends_Seq_iff:
  "e \<in> set (ends (Seq x y) s p) \<longleftrightarrow> (\<exists>m \<in> set (ends x s p). e \<in> set (ends y s m))"
  by auto

lemma ends_plusD:
  assumes "e \<in> set (ends (plus_re x) s p)"
  shows "\<exists>m \<in> set (ends x s p). p < m \<and> m \<le> e \<and> e \<le> length s"
proof -
  from assms obtain m where m: "m \<in> set (ends x s p)" "p < m" "m \<le> length s"
    and e: "e \<in> set (rep_ends (ends x s) (length s) 0 None m)"
    unfolding plus_re_def ends.simps set_rep_ends [of e _ _ 1] by auto
  from rep_ends_range [OF e] m show ?thesis
    by auto
qed

lemma ends_optD:
  "e \<in> set (ends (opt x) s p) \<Longrightarrow> p \<le> e \<and> (e = p \<or> e \<le> length s)"
  unfolding opt_def ends.simps by (rule rep_ends_range)

lemma ends_digits12D:
  assumes "m \<in> set (ends (Rep 1 (Some 2) re_digit) s p)"
  shows "p < length s \<and> is_digit (s ! p) \<and>
         (m = p + 1 \<or> (m = p + 2 \<and> p + 1 < length s \<and> is_digit (s ! (p + 1))))"
proof -
  from assms obtain m1 where m1: "m1 \<in> set (ends re_digit s p)"
    and r1: "m \<in> set (rep_ends (ends re_digit s) (length s) 0 (Some 1) m1)"
    unfolding ends.simps set_rep_ends [of m _ _ 1] by auto
  from m1 have p: "p < length s" "is_digit (s ! p)" "m1 = Suc p"
    by (simp_all add: re_digit_def split: if_splits)
  from r1 consider "m = m1"
    | m2 where "m2 \<in> set (ends re_digit s m1)"
        "m \<in> set (rep_ends (ends re_digit s) (length s) 0 (Some 0) m2)"
    unfolding set_rep_ends [of m _ _ 0 "Some 1"] by auto
  then show ?thesis
  proof cases
    case 1
    with p show ?thesis by simp
  next
    case 2
    from 2(1) have q: "m1 < length s" "is_digit (s ! m1)" "m2 = Suc m1"
      by (simp_all add: re_digit_def split: if_splits)
    from 2(2) have "m = m2"
      unfolding set_rep_ends [of m _ _ 0 "Some 0"] by simp
    with p q show ?thesis by simp
  qed
qed


lemma not_digit_dot: "\<not> is_digit CHR ''.''"
  by (simp add: is_digit_def)

lemma version_regex_endsD:
  assumes "b \<in> set (ends version_regex s a)"
  shows "\<not> (0 < a \<and> (is_digit (s ! (a - 1)) \<or> s ! (a - 1) = CHR ''.''))"
    and "\<exists>k. (k = 1 \<or> k = 2) \<and> (\<forall>i<k. a + i < length s \<and> is_digit (s ! (a + i)))
             \<and> a + k < length s \<and> s ! (a + k) = CHR ''.''
             \<and> is_digit (s ! (a + k + 1)) \<and> a + k + 2 \<le> b \<and> b \<le> length s"
proof -
  from assms have look: "\<not> (1 \<le> a \<and> a \<in> set (ends (Alt re_digit (re_char CHR ''.'')) s (a - 1)))"
    and rest: "b \<in> set (ends (Seq (Rep 1 (Some 2) re_digit)
                 (Seq (plus_re (Seq (re_char CHR ''.'') (plus_re re_digit)))
                      (opt (Seq (re_char CHR ''-'') (plus_re (Sym is_alnum)))))) s a)"
    unfolding version_regex_def ends_Seq_iff by (auto split: if_splits)
  from rest obtain m g where m: "m \<in> set (ends (Rep 1 (Some 2) re_digit) s a)"
    and g: "g \<in> set (ends (plus_re (Seq (re_char CHR ''.'') (plus_re re_digit))) s m)"
    and o: "b \<in> set (ends (opt (Seq (re_char CHR ''-'') (plus_re (Sym is_alnum)))) s g)"
    unfolding ends_Seq_iff by blast
  from ends_digits12D [OF m] have a: "a < length s" "is_digit (s ! a)"
    and mk: "m = a + 1 \<or> (m = a + 2 \<and> a + 1 < length s \<and> is_digit (s ! (a + 1)))"
    by simp_all
  from ends_plusD [OF g] obtain m2
    where m2: "m2 \<in> set (ends (Seq (re_char CHR ''.'') (plus_re re_digit)) s m)"
      and m2g: "m2 \<le> g" and gn: "g \<le> length s"
    by blast
  from m2 obtain d where d: "d \<in> set (ends (re_char CHR ''.'') s m)"
    and pd: "m2 \<in> set (ends (plus_re re_digit) s d)"
    unfolding ends_Seq_iff by blast
  from d have dot: "m < length s" "s ! m = CHR ''.''" "d = Suc m"
    by (simp_all add: re_char_def split: if_splits)
  from ends_plusD [OF pd] obtain m3 where m3: "m3 \<in> set (ends re_digit s d)" and m32: "m3 \<le> m2"
    by blast
  from m3 have dig: "d < length s" "is_digit (s ! d)" "m3 = Suc d"
    by (simp_all add: re_digit_def split: if_splits)
  from ends_optD [OF o] gn have bg: "g \<le> b" "b \<le> length s"
    by auto
  show "\<not> (0 < a \<and> (is_digit (s ! (a - 1)) \<or> s ! (a - 1) = CHR ''.''))"
    using look a(1) by (auto simp: re_digit_def re_char_def)
  from mk show "\<exists>k. (k = 1 \<or> k = 2) \<and> (\<forall>i<k. a + i < length s \<and> is_digit (s ! (a + i)))
             \<and> a + k < length s \<and> s ! (a + k) = CHR ''.''
             \<and> is_digit (s ! (a + k + 1)) \<and> a + k + 2 \<le> b \<and> b \<le> length s"
  proof
    assume m1: "m = a + 1"
    have "\<forall>i<(1::nat). a + i < length s \<and> is_digit (s ! (a + i))"
      using a by simp
    with m1 dot dig m32 m2g bg show ?thesis
      by (intro exI [of _ 1]) simp
  next
    assume m2: "m = a + 2 \<and> a + 1 < length s \<and> is_digit (s ! (a + 1))"
    have "\<forall>i<(2::nat). a + i < length s \<and> is_digit (s ! (a + i))"
      using a m2 by (auto simp: less_Suc_eq numeral_2_eq_2)
    with m2 dot dig m32 m2g bg show ?thesis
      by (intro exI [of _ 2]) simp
  qed
qed

lemma takeWhile_digits:
  assumes "\<forall>i<k. i < length xs \<and> is_digit (xs ! i)" and "k < length xs" and "xs ! k = CHR ''.''"
  shows "takeWhile is_digit xs = take k xs" and "length (takeWhile is_digit xs) = k"
proof -
  show t: "takeWhile is_digit xs = take k xs"
    using assms by (intro takeWhile_eq_take_P_nth) (simp_all add: not_digit_dot)
  show "length (takeWhile is_digit xs) = k"
    unfolding t using assms(2) by simp
qed

lemma version_6_4: "re_search version_regex ''Component: 6.4'' = Some (11, 14)"
  by code_simp

text \<open>
  Claim C10. Whenever the search for the version pattern in the matched line finds a
  token, the token starts where no digit and no dot stands before it, its major component
  (its leading digits, which are all the digits that the line has from there) has one or
  two digits, and a dot follows. So a dotted version with a major component of three
  digits or more, such as \<^verbatim>\<open>123.4\<close>, is never the token: in \<^verbatim>\<open>123.4\<close> and
  in a line that ends with it the search finds nothing.
\<close>

theorem version_token_major:
  assumes "re_search version_regex line = Some (a, b)"
  shows "a < b \<and> b \<le> length line
     \<and> \<not> (0 < a \<and> (is_digit (line ! (a - 1)) \<or> line ! (a - 1) = CHR ''.''))
     \<and> (length (takeWhile is_digit (group0 line (a, b))) = 1
          \<or> length (takeWhile is_digit (group0 line (a, b))) = 2)
     \<and> group0 line (a, b) ! length (takeWhile is_digit (group0 line (a, b))) = CHR ''.''
     \<and> takeWhile is_digit (drop a line) = takeWhile is_digit (group0 line (a, b))
     \<and> re_search version_regex ''123.4'' = None
     \<and> re_search version_regex ''Component: 123.4'' = None"
proof -
  from re_search_SomeD [OF assms] have b: "b \<in> set (ends version_regex line a)"
    by simp
  from version_regex_endsD(2) [OF b] obtain k where k: "k = 1 \<or> k = 2"
    and digs: "\<forall>i<k. a + i < length line \<and> is_digit (line ! (a + i))"
    and dot: "a + k < length line" "line ! (a + k) = CHR ''.''"
    and bnd: "a + k + 2 \<le> b" "b \<le> length line"
    by blast
  let ?tok = "group0 line (a, b)"
  have len: "length ?tok = b - a"
    using bnd by (simp add: group0_def)
  have nth: "?tok ! i = line ! (a + i)" if "i < b - a" for i
    using that bnd by (simp add: group0_def)
  have pre: "\<forall>i<k. i < length ?tok \<and> is_digit (?tok ! i)"
    using digs bnd by (auto simp: len nth)
  have kl: "k < length ?tok"
    using bnd by (simp add: len)
  have kd: "?tok ! k = CHR ''.''"
    using dot bnd by (simp add: nth)
  note t1 = takeWhile_digits [OF pre kl kd]
  have pre2: "\<forall>i<k. i < length (drop a line) \<and> is_digit (drop a line ! i)"
    using digs bnd by auto
  have t2: "takeWhile is_digit (drop a line) = take k (drop a line)"
    using pre2 dot bnd by (intro takeWhile_digits(1)) simp_all
  have "take k ?tok = take k (drop a line)"
    using bnd by (simp add: group0_def min_def)
  with t1 t2 have same: "takeWhile is_digit (drop a line) = takeWhile is_digit ?tok"
    by simp
  have none: "re_search version_regex ''123.4'' = None"
    by code_simp
  have none': "re_search version_regex ''Component: 123.4'' = None"
    by code_simp
  from k t1(2) bnd dot nth [of k] version_regex_endsD(1) [OF b] same none none' show ?thesis
    by auto
qed

theorem version_token_major_witness:
  "re_search version_regex ''Component: 6.4'' = Some (11, 14)
   \<and> group0 ''Component: 6.4'' (11, 14) = ''6.4''
   \<and> length (takeWhile is_digit (group0 ''Component: 6.4'' (11, 14))) = 1
   \<and> group0 ''Component: 6.4'' (11, 14) ! 1 = CHR ''.''"
proof -
  have g: "group0 ''Component: 6.4'' (11, 14) = ''6.4''"
    by (simp add: group0_def)
  have d: "takeWhile is_digit ''6.4'' = ''6''"
    by (simp add: is_digit_def)
  from version_token_major [OF version_6_4] version_6_4 show ?thesis
    unfolding g d by simp
qed

section \<open>What \<^verbatim>\<open>ArmclangCompiler.__init__\<close> does with the linker's output\<close>

lemma ends_re_stringD:
  "e \<in> set (ends (re_string lit) s p) \<Longrightarrow>
     e = p + length lit \<and> take (length lit) (drop p s) = lit"
proof (induction lit arbitrary: p rule: re_string.induct)
  case 1
  then show ?case by simp
next
  case (2 c)
  then have "p < length s" "s ! p = c" "e = Suc p"
    by (simp_all add: re_char_def split: if_splits)
  then show ?case
    by (simp add: take_Suc_conv_app_nth)
next
  case (3 c v va)
  from "3.prems" obtain m where m: "m \<in> set (ends (re_char c) s p)"
    and e: "e \<in> set (ends (re_string (v # va)) s m)"
    by auto
  from m have p: "p < length s" "s ! p = c" "m = Suc p"
    by (simp_all add: re_char_def split: if_splits)
  from "3.IH" [OF e] have "e = m + length (v # va)"
    and "take (length (v # va)) (drop m s) = v # va"
    by simp_all
  moreover have "drop p s = c # drop (Suc p) s"
    using p by (metis Cons_nth_drop_Suc)
  ultimately show ?case
    using p by simp
qed

lemma ends_starD:
  "e \<in> set (ends (star x) s p) \<Longrightarrow> p \<le> e \<and> (e = p \<or> e \<le> length s)"
  unfolding star_def ends.simps by (rule rep_ends_range)

lemma component_regex_endsD:
  assumes "b \<in> set (ends component_regex s a)"
  shows "\<exists>m. a \<le> m \<and> take 9 (drop m s) = ''Component'' \<and> m + 9 \<le> b \<and> b \<le> length s"
proof -
  from assms obtain m e where m: "m \<in> set (ends (star re_any) s a)"
    and e: "e \<in> set (ends (re_string ''Component'') s m)"
    and b: "b \<in> set (ends (star re_any) s e)"
    unfolding component_regex_def ends_Seq_iff by blast
  have len: "length ''Component'' = 9"
    by simp
  note d = ends_re_stringD [OF e, unfolded len]
  from d have e9: "e = m + 9" and lit: "take 9 (drop m s) = ''Component''"
    by blast+
  have "length (take 9 (drop m s)) = 9"
    unfolding lit by simp
  then have "m + 9 \<le> length s"
    by simp
  with ends_starD [OF m] ends_starD [OF b] e9 lit show ?thesis
    by auto
qed

lemma component_regex_sublist:
  assumes "re_search component_regex s = Some (a, b)"
  shows "sublist ''Component'' s" and "group0 s (a, b) \<noteq> []"
proof -
  from re_search_SomeD [OF assms] component_regex_endsD obtain m
    where m: "a \<le> m" "take 9 (drop m s) = ''Component''" "m + 9 \<le> b" "b \<le> length s"
    by blast
  have "s = take m s @ take 9 (drop m s) @ drop 9 (drop m s)"
    by (simp only: append_take_drop_id)
  then have "s = take m s @ ''Component'' @ drop 9 (drop m s)"
    unfolding m(2) .
  then show "sublist ''Component'' s"
    unfolding sublist_def by blast
  from m show "group0 s (a, b) \<noteq> []"
    by (simp add: group0_def)
qed

lemma no_component_no_match:
  "\<not> sublist ''Component'' s \<Longrightarrow> re_search component_regex s = None"
  using component_regex_sublist(1) by (cases "re_search component_regex s") auto

lemma init_after_launch:
  assumes "is_cross self" and "Popen_safe lib ''armlink'' ''--vsn'' = Inr (p, stdo, stderr)"
  shows "fst (ArmclangCompiler_init lib self w) =
           verify_armlink_version lib (self\<lparr>linker_exe := ''armlink''\<rparr>) stdo"
  using assms by (simp add: ArmclangCompiler_init_def)

text \<open>
  Claim C1. When the launch of \<^verbatim>\<open>armlink --vsn\<close> succeeds and the search for
  \<^verbatim>\<open>.*Component.*\<close> in the captured output finds nothing, the constructor of a
  cross \<^verbatim>\<open>ArmclangCompiler\<close> does not fail with the
  \<^verbatim>\<open>EnvironmentException\<close> \<^verbatim>\<open>'armlink version string not found'\<close>: the
  source builds that exception without raising it, and the \<^verbatim>\<open>assert ver_str\<close>
  that follows fails, so the construction ends with an \<^verbatim>\<open>AssertionError\<close>.
  By \<open>no_component_no_match\<close> every output in which the word
  \<^verbatim>\<open>Component\<close> does not occur is such an output.
\<close>

theorem no_component_line_assertion_error:
  assumes "is_cross self"
    and "Popen_safe lib ''armlink'' ''--vsn'' = Inr (p, stdo, stderr)"
    and "re_search component_regex stdo = None"
  shows "fst (ArmclangCompiler_init lib self w) = Inl AssertionError
     \<and> fst (ArmclangCompiler_init lib self w) \<noteq>
         Inl (EnvironmentException ''armlink version string not found'')"
  unfolding init_after_launch [OF assms(1,2)]
  by (simp add: verify_armlink_version_def assms(3))

lemma is_cross_cross: "is_cross (cross_compiler v)"
  by (simp add: cross_compiler_def)

lemma popen_lib_printing: "Popen_safe (lib_printing stdo) exe args = Inr (0, stdo, [])"
  by (simp add: lib_printing_def)

theorem no_component_line_assertion_error_witness:
  "is_cross (cross_compiler ''6.15'')
   \<and> Popen_safe (lib_printing ''Product: ARM Compiler 6.15'') ''armlink'' ''--vsn'' =
       Inr (0, ''Product: ARM Compiler 6.15'', [])
   \<and> re_search component_regex ''Product: ARM Compiler 6.15'' = None
   \<and> fst (ArmclangCompiler_init (lib_printing ''Product: ARM Compiler 6.15'')
            (cross_compiler ''6.15'') world0) = Inl AssertionError"
proof -
  have s: "\<not> sublist ''Component'' ''Product: ARM Compiler 6.15''"
    by code_simp
  note n = no_component_no_match [OF s]
  from no_component_line_assertion_error [OF is_cross_cross popen_lib_printing n, of "''6.15''" world0]
    is_cross_cross [of "''6.15''"] popen_lib_printing [of "''Product: ARM Compiler 6.15''"] n
  show ?thesis
    by simp
qed

lemma version_compare_strict_eq:
  "version_compare_strict v (CHR ''='' # CHR ''='' # t) = (v = t)"
  by (simp add: version_compare_strict_def)

lemma version_cross_compiler: "version (cross_compiler v) = v"
  by (simp add: cross_compiler_def)

lemma version_compare_lib_printing:
  "version_compare (lib_printing stdo) = version_compare_strict"
  by (simp add: lib_printing_def)

lemma component_6_4:
  "re_search component_regex ''Component: ARM Compiler 6.4 Tool: armlink'' = Some (0, 41)"
  by code_simp

lemma component_6_15:
  "re_search component_regex ''Component: ARM Compiler 6.15 Tool: armlink'' = Some (0, 42)"
  by code_simp

lemma version_in_6_4:
  "re_search version_regex ''Component: ARM Compiler 6.4 Tool: armlink'' = Some (24, 27)"
  by code_simp

lemma version_in_6_15:
  "re_search version_regex ''Component: ARM Compiler 6.15 Tool: armlink'' = Some (24, 28)"
  by code_simp

lemma component_no_token:
  "re_search component_regex ''Component: armlink'' = Some (0, 18)"
  by code_simp

lemma version_no_token:
  "re_search version_regex ''Component: armlink'' = None"
  by code_simp

text \<open>
  Claim C2, as stated, fails on the message and on the case without a token. With a linker
  that reports \<^verbatim>\<open>6.4\<close> and a compiler of version \<^verbatim>\<open>6.15\<close> the construction
  fails with an \<^verbatim>\<open>EnvironmentException\<close> whose message is a fixed text in which
  neither \<^verbatim>\<open>6.4\<close> nor \<^verbatim>\<open>6.15\<close> occurs; and with a
  \<^verbatim>\<open>Component\<close> line that holds no version token the construction ends with a
  \<^verbatim>\<open>TypeError\<close> from \<^verbatim>\<open>'==' + linker_ver\<close>, not with the mismatch error.
\<close>

theorem version_mismatch_counterexample:
  "fst (ArmclangCompiler_init (lib_printing ''Component: ARM Compiler 6.4 Tool: armlink'')
          (cross_compiler ''6.15'') world0) =
     Inl (EnvironmentException ''armlink version does not match with compiler version'')
   \<and> \<not> sublist ''6.4'' ''armlink version does not match with compiler version''
   \<and> \<not> sublist ''6.15'' ''armlink version does not match with compiler version''
   \<and> fst (ArmclangCompiler_init (lib_printing ''Component: armlink'')
          (cross_compiler ''6.15'') world0) = Inl TypeError"
proof -
  have a: "fst (ArmclangCompiler_init (lib_printing ''Component: ARM Compiler 6.4 Tool: armlink'')
          (cross_compiler ''6.15'') world0) =
     Inl (EnvironmentException ''armlink version does not match with compiler version'')"
    unfolding init_after_launch [OF is_cross_cross popen_lib_printing]
    by (simp add: verify_armlink_version_def component_6_4 version_in_6_4 group0_def
        version_compare_lib_printing version_compare_strict_eq version_cross_compiler)
  have b: "\<not> sublist ''6.4'' ''armlink version does not match with compiler version''"
    by code_simp
  have c: "\<not> sublist ''6.15'' ''armlink version does not match with compiler version''"
    by code_simp
  have d: "fst (ArmclangCompiler_init (lib_printing ''Component: armlink'')
          (cross_compiler ''6.15'') world0) = Inl TypeError"
    unfolding init_after_launch [OF is_cross_cross popen_lib_printing]
    by (simp add: verify_armlink_version_def component_no_token version_no_token group0_def)
  from a b c d show ?thesis
    by blast
qed

text \<open>
  Claim C2, amended. When the launch succeeds, the search for \<^verbatim>\<open>.*Component.*\<close>
  finds a line and the search for the version pattern finds a token in that line, the
  construction of a cross \<^verbatim>\<open>ArmclangCompiler\<close> succeeds exactly when
  \<^verbatim>\<open>mesonlib.version_compare(self.version, '==' + token)\<close> holds, and then the
  object has the linker \<^verbatim>\<open>armlink\<close>, the id \<^verbatim>\<open>armclang\<close>, the base
  options and the added suffix \<^verbatim>\<open>s\<close>; otherwise it fails with the
  \<^verbatim>\<open>EnvironmentException\<close> whose message is the fixed text
  \<^verbatim>\<open>'armlink version does not match with compiler version'\<close>. When the comparison
  is strict equality of the two strings, the construction succeeds exactly when the
  compiler's version is the token.
\<close>

theorem version_check_outcome:
  assumes "is_cross self"
    and "Popen_safe lib ''armlink'' ''--vsn'' = Inr (p, stdo, stderr)"
    and "re_search component_regex stdo = Some m"
    and "re_search version_regex (group0 stdo m) = Some m'"
  shows "fst (ArmclangCompiler_init lib self w) =
           (if version_compare lib (version self) (''=='' @ group0 (group0 stdo m) m')
            then Inr (self\<lparr>linker_exe := ''armlink'', id_attr := ''armclang'',
                           base_options := [''b_pch'', ''b_lto'', ''b_pgo'', ''b_sanitize'',
                                            ''b_coverage'', ''b_ndebug'', ''b_staticpic'',
                                            ''b_colorout''],
                           can_compile_suffixes := can_compile_suffixes self \<union> {''s''}\<rparr>)
            else Inl (EnvironmentException
                        ''armlink version does not match with compiler version''))
     \<and> (version_compare lib = version_compare_strict \<longrightarrow>
          (\<exists>c. fst (ArmclangCompiler_init lib self w) = Inr c) =
            (version self = group0 (group0 stdo m) m'))"
proof -
  obtain a b where m: "m = (a, b)"
    by (cases m)
  from assms(3) have ne: "group0 stdo m \<noteq> []"
    unfolding m by (rule component_regex_sublist(2))
  have r: "fst (ArmclangCompiler_init lib self w) =
           (if version_compare lib (version self) (''=='' @ group0 (group0 stdo m) m')
            then Inr (self\<lparr>linker_exe := ''armlink'', id_attr := ''armclang'',
                           base_options := [''b_pch'', ''b_lto'', ''b_pgo'', ''b_sanitize'',
                                            ''b_coverage'', ''b_ndebug'', ''b_staticpic'',
                                            ''b_colorout''],
                           can_compile_suffixes := can_compile_suffixes self \<union> {''s''}\<rparr>)
            else Inl (EnvironmentException
                        ''armlink version does not match with compiler version''))"
    unfolding init_after_launch [OF assms(1,2)]
    using ne by (simp add: verify_armlink_version_def assms(3,4))
  show ?thesis
    unfolding r by (auto simp: version_compare_strict_eq)
qed

theorem version_check_outcome_witness:
  "is_cross (cross_compiler ''6.15'')
   \<and> re_search component_regex ''Component: ARM Compiler 6.15 Tool: armlink'' = Some (0, 42)
   \<and> re_search version_regex
         (group0 ''Component: ARM Compiler 6.15 Tool: armlink'' (0, 42)) = Some (24, 28)
   \<and> group0 (group0 ''Component: ARM Compiler 6.15 Tool: armlink'' (0, 42)) (24, 28) = ''6.15''
   \<and> version_compare (lib_printing ''Component: ARM Compiler 6.15 Tool: armlink'') =
         version_compare_strict
   \<and> (\<exists>c. fst (ArmclangCompiler_init
                    (lib_printing ''Component: ARM Compiler 6.15 Tool: armlink'')
                    (cross_compiler ''6.15'') world0) = Inr c \<and> id_attr c = ''armclang'')"
proof -
  have g: "group0 ''Component: ARM Compiler 6.15 Tool: armlink'' (0, 42) =
             ''Component: ARM Compiler 6.15 Tool: armlink''"
    by (simp add: group0_def)
  have v: "re_search version_regex
             (group0 ''Component: ARM Compiler 6.15 Tool: armlink'' (0, 42)) = Some (24, 28)"
    unfolding g by (rule version_in_6_15)
  have t: "group0 (group0 ''Component: ARM Compiler 6.15 Tool: armlink'' (0, 42)) (24, 28) =
             ''6.15''"
    unfolding g by (simp add: group0_def)
  from version_check_outcome [OF is_cross_cross popen_lib_printing component_6_15 v,
      of "''6.15''" world0]
    is_cross_cross [of "''6.15''"] component_6_15 v t
    version_compare_lib_printing [of "''Component: ARM Compiler 6.15 Tool: armlink''"]
  show ?thesis
    by (simp add: version_compare_strict_eq version_cross_compiler)
qed

end
